theory Spec2Isabelle
  imports Complex_Main "HOL-Library.Word"
begin

section \<open>Data model\<close>

text \<open>
  The program uploads one local file to an object store as a multipart upload. It exists in
  three variants: \<^verbatim>\<open>src/main.go\<close>, the refactored \<^verbatim>\<open>src/unnamed/part_000\<close> (with the
  function \<^verbatim>\<open>uploadParts\<close>) and the older \<^verbatim>\<open>src/unnamed/part_001\<close> (fixed 5 MiB buffer).

  A run is modelled by the sequence of calls it makes to its collaborators (the flag
  package, standard output, the file system, the storage client), each with the answer it
  got, and by the way the process ends.
\<close>

type_synonym byte = "8 word"
type_synonym int32 = "32 word"

definition defaultChunkSize :: int where
  "defaultChunkSize = 15 * 1024 * 1024"

definition minimumChunkSize :: int where
  "minimumChunkSize = 5 * 1024 * 1024"

text \<open>\<^verbatim>\<open>types.CompletedPart\<close>: the two fields the program sets.\<close>

record CompletedPart =
  ETag :: string
  PartNumber :: int32

text \<open>The parsed command line flags; \<^verbatim>\<open>chunkSize\<close> is an \<^verbatim>\<open>int64\<close> flag.\<close>

record flags =
  bucket :: string
  key :: string
  filePath :: string
  chunkSize :: int

text \<open>\<^verbatim>\<open>UploadConfiguration\<close> of part_000.\<close>

record UploadConfiguration =
  cfg_bucket :: string
  cfg_key :: string
  cfg_filePath :: string
  cfg_chunkSize :: int

subsection \<open>The open file\<close>

text \<open>
  An open regular file: the bytes after the cursor, and an optional scheduled fault
  \<open>Some (k, e)\<close>: the read call after \<open>k\<close> further system-level reads fails with the error
  \<open>e\<close> (which is not end-of-stream).

  \<open>Read f len\<close> is \<^verbatim>\<open>f.Read(buffer)\<close> with \<open>len = len(buffer)\<close>; it returns the bytes
  placed in \<^verbatim>\<open>buffer[:n]\<close> (so \<open>n\<close> is their number), the error, and the file afterwards:
  \<^item> a zero-length buffer returns \<open>(0, nil)\<close> at once (\<^verbatim>\<open>os.File\<close> does so before any
    system call);
  \<^item> a due fault returns \<open>(0, e)\<close>;
  \<^item> at the end of the file the result is \<open>(0, io.EOF)\<close>;
  \<^item> otherwise the buffer is filled as far as bytes remain, with a \<open>nil\<close> error.
\<close>

datatype read_error = EOF | ReadFault string

record os_file =
  data :: "byte list"
  fault :: "(nat \<times> string) option"

fun fault_due :: "(nat \<times> string) option \<Rightarrow> string option" where
  "fault_due (Some (0, e)) = Some e"
| "fault_due _ = None"

fun fault_tick :: "(nat \<times> string) option \<Rightarrow> (nat \<times> string) option" where
  "fault_tick (Some (Suc k, e)) = Some (k, e)"
| "fault_tick ft = ft"

definition Read :: "os_file \<Rightarrow> nat \<Rightarrow> (byte list \<times> read_error option) \<times> os_file" where
  "Read f len =
     (if len = 0 then (([], None), f)
      else case fault_due (fault f) of
        Some e \<Rightarrow> (([], Some (ReadFault e)), f)
      | None \<Rightarrow>
          if data f = [] then (([], Some EOF), f\<lparr>fault := fault_tick (fault f)\<rparr>)
          else ((take len (data f), None),
                f\<lparr>data := drop len (data f), fault := fault_tick (fault f)\<rparr>))"

subsection \<open>The storage client and the environment\<close>

text \<open>
  The storage service is external. Its answers are parameters of a run:
  \<^item> \<open>create_resp bucket key\<close>: an error, or a response whose \<^verbatim>\<open>UploadId\<close> pointer may be nil;
  \<^item> \<open>upload_resp i\<close>: the answer to the \<open>i\<close>-th \<^verbatim>\<open>UploadPart\<close> call of the run (from 0):
    an error, or a response whose \<^verbatim>\<open>ETag\<close> pointer may be nil;
  \<^item> \<open>abort_resp\<close>, \<open>complete_resp manifest\<close>: \<open>None\<close> for success, \<open>Some e\<close> for an error.
\<close>

record client =
  create_resp :: "string \<Rightarrow> string \<Rightarrow> string + string option"
  upload_resp :: "nat \<Rightarrow> string + string option"
  abort_resp :: "string option"
  complete_resp :: "CompletedPart list \<Rightarrow> string option"

record env =
  load_config :: "string option"
  open_file :: "string \<Rightarrow> string + os_file"
  s3 :: client

subsection \<open>Traces and outcomes\<close>

datatype message =
    MustProvide
  | ChunkSizeTooSmall int
  | UploadIdIs string
  | UploadedPart int32 string
  | UploadCompleted

datatype event =
    EUsage
  | EPrint message
  | ELoadConfig "string option"
  | EOpen string "string option"
  | EClose
  | ECreate string string "string + string option"
  | ERead nat "byte list" "read_error option"
  | EUploadPart string string int32 string "byte list" "string + string option"
  | EAbort string string string "string option"
  | EComplete string string string "CompletedPart list" "string option"

text \<open>
  The reported failures (the messages of \<^verbatim>\<open>log.Fatalf\<close> and \<^verbatim>\<open>fmt.Errorf\<close>), by phase.
\<close>

datatype failure =
    MissingArguments
  | LoadConfigFailed string
  | OpenFailed string
  | CreateFailed string
  | ReadFailed string
  | UploadPartFailed int32 string
  | UploadPartsFailed failure
  | CompleteFailed string

text \<open>
  How the process ends: \<open>Returned\<close> is a normal return of \<^verbatim>\<open>main\<close>; \<open>Fatal\<close> is
  \<^verbatim>\<open>log.Fatal\<close>/\<^verbatim>\<open>log.Fatalf\<close>, which print and call \<^verbatim>\<open>os.Exit(1)\<close>; \<open>Exit\<close> is
  \<^verbatim>\<open>os.Exit\<close>; \<open>Panic\<close> is a run-time panic (a negative slice length, a nil dereference).
\<close>

datatype outcome = Returned | Fatal failure | Exit nat | Panic

text \<open>
  How the upload loop, and \<^verbatim>\<open>uploadParts\<close>, end: with the completed parts, with a failure
  (reported by \<^verbatim>\<open>log.Fatalf\<close> in main.go and part_001, returned as an \<^verbatim>\<open>error\<close> in
  part_000), or with a panic.
\<close>

datatype result = Done "CompletedPart list" | Failed failure | Panicked

text \<open>
  \<^verbatim>\<open>defer f.Close()\<close>: a deferred call runs when the function returns or panics. It does
  not run when the process ends through \<^verbatim>\<open>os.Exit\<close>, hence not after \<^verbatim>\<open>log.Fatalf\<close>.
\<close>

fun runs_deferred :: "outcome \<Rightarrow> bool" where
  "runs_deferred Returned = True"
| "runs_deferred Panic = True"
| "runs_deferred (Fatal _) = False"
| "runs_deferred (Exit _) = False"

definition with_deferred_close :: "event list \<times> outcome \<Rightarrow> event list \<times> outcome" where
  "with_deferred_close r =
     (if runs_deferred (snd r) then (fst r @ [EClose], snd r) else r)"

text \<open>\<open>after evs r\<close>: the events \<open>evs\<close> happen, then the run \<open>r\<close>.\<close>

definition after :: "event list \<Rightarrow> event list \<times> 'a \<Rightarrow> event list \<times> 'a" where
  "after evs r = (evs @ fst r, snd r)"

text \<open>
  \<^verbatim>\<open>sort.Slice\<close> with the comparison \<^verbatim>\<open>*a.PartNumber < *b.PartNumber\<close> on \<^verbatim>\<open>int32\<close>: the
  parts ordered by the signed value of their number. \<^verbatim>\<open>sort.Slice\<close> does not promise to
  keep the order of entries with equal numbers, which only occur after \<open>2 ^ 32\<close> parts;
  the results below use that the outcome is ordered and has the same entries.
\<close>

definition sort_parts :: "CompletedPart list \<Rightarrow> CompletedPart list" where
  "sort_parts ps = sort_key (\<lambda>p. sint (PartNumber p)) ps"

text \<open>The test \<^verbatim>\<open>err != nil && err != io.EOF\<close>.\<close>

fun read_fault :: "read_error option \<Rightarrow> string option" where
  "read_fault (Some (ReadFault e)) = Some e"
| "read_fault _ = None"

section \<open>src/main.go\<close>

text \<open>
  The loop of lines 70 to 108 (the same text as lines 64 to 102 of part_001). \<open>len\<close> is
  the length of \<^verbatim>\<open>buffer\<close>, \<open>calls\<close> the number of \<^verbatim>\<open>UploadPart\<close> calls made so far. A
  read error other than \<^verbatim>\<open>io.EOF\<close> ends the process with \<^verbatim>\<open>log.Fatalf\<close>; a read of zero
  bytes leaves the loop; a failed upload calls \<^verbatim>\<open>AbortMultipartUpload\<close>, ignores its
  result, and ends the process with \<^verbatim>\<open>log.Fatalf\<close>; a nil \<^verbatim>\<open>ETag\<close> panics in
  \<^verbatim>\<open>fmt.Printf\<close>. \<^verbatim>\<open>partNum++\<close> on \<^verbatim>\<open>int32\<close> wraps around.
\<close>

function main_loop ::
  "client \<Rightarrow> string \<Rightarrow> string \<Rightarrow> string \<Rightarrow> nat \<Rightarrow> os_file \<Rightarrow> int32 \<Rightarrow> nat \<Rightarrow>
   CompletedPart list \<Rightarrow> event list \<times> result" where
  "main_loop cl b k uploadID len f partNum calls completedParts =
     (case Read f len of ((bs, err), f') \<Rightarrow>
        (case read_fault err of
           Some e \<Rightarrow> ([ERead len bs err], Failed (ReadFailed e))
         | None \<Rightarrow>
           if bs = [] then ([ERead len bs err], Done completedParts)
           else (case upload_resp cl calls of
               Inl e \<Rightarrow>
                 ([ERead len bs err,
                   EUploadPart b k partNum uploadID bs (Inl e),
                   EAbort b k uploadID (abort_resp cl)],
                  Failed (UploadPartFailed partNum e))
             | Inr None \<Rightarrow>
                 ([ERead len bs err, EUploadPart b k partNum uploadID bs (Inr None)],
                  Panicked)
             | Inr (Some etag) \<Rightarrow>
                 after [ERead len bs err,
                        EUploadPart b k partNum uploadID bs (Inr (Some etag)),
                        EPrint (UploadedPart partNum etag)]
                   (main_loop cl b k uploadID len f' (partNum + 1) (Suc calls)
                      (completedParts @ [\<lparr>ETag = etag, PartNumber = partNum\<rparr>])))))"
  by pat_completeness auto
termination
  apply (relation "measure (\<lambda>(cl, b, k, u, len, f, pn, calls, ps). length (data f))")
   apply simp
  apply (auto simp: Read_def split: if_splits option.splits)
  done

declare main_loop.simps [simp del]

text \<open>
  Lines 110 to 127: the parts are sorted, \<^verbatim>\<open>CompleteMultipartUpload\<close> is called once, and
  its failure ends the process with \<^verbatim>\<open>log.Fatalf\<close>.
\<close>

definition complete_upload ::
  "client \<Rightarrow> string \<Rightarrow> string \<Rightarrow> string \<Rightarrow> CompletedPart list \<Rightarrow> event list \<times> outcome" where
  "complete_upload cl b k uploadID completedParts =
     (let parts = sort_parts completedParts; r = complete_resp cl parts in
      after [EComplete b k uploadID parts r]
        (case r of
           Some e \<Rightarrow> ([], Fatal (CompleteFailed e))
         | None \<Rightarrow> ([EPrint UploadCompleted], Returned)))"

text \<open>Lines 70 to 127: the loop, then the completion.\<close>

definition main_upload ::
  "client \<Rightarrow> string \<Rightarrow> string \<Rightarrow> string \<Rightarrow> nat \<Rightarrow> os_file \<Rightarrow> event list \<times> outcome" where
  "main_upload cl b k uploadID len f =
     (case main_loop cl b k uploadID len f 1 0 [] of
        (evs, Failed e) \<Rightarrow> (evs, Fatal e)
      | (evs, Panicked) \<Rightarrow> (evs, Panic)
      | (evs, Done completedParts) \<Rightarrow>
          after evs (complete_upload cl b k uploadID completedParts))"

text \<open>
  Lines 50 to 127, with the file open and its \<^verbatim>\<open>Close\<close> deferred: the session is created
  (a nil \<^verbatim>\<open>UploadId\<close> panics at line 61), the buffer is allocated
  (\<^verbatim>\<open>make([]byte, *chunkSize)\<close> panics on a negative length; an allocation of a
  non-negative length is taken to succeed), and the upload runs.
\<close>

definition main_opened :: "client \<Rightarrow> flags \<Rightarrow> os_file \<Rightarrow> event list \<times> outcome" where
  "main_opened cl a f =
     with_deferred_close
       (let r = create_resp cl (bucket a) (key a) in
        after [ECreate (bucket a) (key a) r]
          (case r of
             Inl e \<Rightarrow> ([], Fatal (CreateFailed e))
           | Inr None \<Rightarrow> ([], Panic)
           | Inr (Some uploadID) \<Rightarrow>
               after [EPrint (UploadIdIs uploadID)]
                 (if chunkSize a < 0 then ([], Panic)
                  else main_upload cl (bucket a) (key a) uploadID (nat (chunkSize a)) f)))"

text \<open>
  Lines 29 to 36: both checks print and go on; neither ends the run.
\<close>

definition validate :: "flags \<Rightarrow> event list" where
  "validate a =
     (if bucket a = [] \<or> key a = [] \<or> filePath a = [] then [EUsage, EPrint MustProvide] else [])
     @ (if chunkSize a < minimumChunkSize then [EPrint (ChunkSizeTooSmall minimumChunkSize)]
        else [])"

definition main :: "env \<Rightarrow> flags \<Rightarrow> event list \<times> outcome" where
  "main ev a =
     after (validate a @ [ELoadConfig (load_config ev)])
       (case load_config ev of
          Some e \<Rightarrow> ([], Fatal (LoadConfigFailed e))
        | None \<Rightarrow>
            (case open_file ev (filePath a) of
               Inl e \<Rightarrow> ([EOpen (filePath a) (Some e)], Fatal (OpenFailed e))
             | Inr f \<Rightarrow> after [EOpen (filePath a) None] (main_opened (s3 ev) a f)))"

section \<open>src/unnamed/part_000\<close>

text \<open>
  The loop of \<^verbatim>\<open>uploadParts\<close>, lines 118 to 151: as the loop of main.go, except that a
  failure is returned to the caller, and that the loop itself does not abort the session.
\<close>

function uploadParts_loop ::
  "client \<Rightarrow> string \<Rightarrow> string \<Rightarrow> string \<Rightarrow> nat \<Rightarrow> os_file \<Rightarrow> int32 \<Rightarrow> nat \<Rightarrow>
   CompletedPart list \<Rightarrow> event list \<times> result" where
  "uploadParts_loop cl b k uploadId len f partNum calls completedParts =
     (case Read f len of ((bs, err), f') \<Rightarrow>
        (case read_fault err of
           Some e \<Rightarrow> ([ERead len bs err], Failed (ReadFailed e))
         | None \<Rightarrow>
           if bs = [] then ([ERead len bs err], Done completedParts)
           else (case upload_resp cl calls of
               Inl e \<Rightarrow>
                 ([ERead len bs err, EUploadPart b k partNum uploadId bs (Inl e)],
                  Failed (UploadPartFailed partNum e))
             | Inr None \<Rightarrow>
                 ([ERead len bs err, EUploadPart b k partNum uploadId bs (Inr None)],
                  Panicked)
             | Inr (Some etag) \<Rightarrow>
                 after [ERead len bs err,
                        EUploadPart b k partNum uploadId bs (Inr (Some etag)),
                        EPrint (UploadedPart partNum etag)]
                   (uploadParts_loop cl b k uploadId len f' (partNum + 1) (Suc calls)
                      (completedParts @ [\<lparr>ETag = etag, PartNumber = partNum\<rparr>])))))"
  by pat_completeness auto
termination
  apply (relation "measure (\<lambda>(cl, b, k, u, len, f, pn, calls, ps). length (data f))")
   apply simp
  apply (auto simp: Read_def split: if_splits option.splits)
  done

declare uploadParts_loop.simps [simp del]

text \<open>
  \<^verbatim>\<open>uploadParts\<close>, lines 103 to 158. Every way out after the file is open is a return or a
  panic, so the deferred \<^verbatim>\<open>Close\<close> always runs.
\<close>

definition uploadParts ::
  "env \<Rightarrow> UploadConfiguration \<Rightarrow> client \<Rightarrow> string \<Rightarrow> event list \<times> result" where
  "uploadParts ev cfg cl uploadId =
     (case open_file ev (cfg_filePath cfg) of
        Inl e \<Rightarrow> ([EOpen (cfg_filePath cfg) (Some e)], Failed (OpenFailed e))
      | Inr f \<Rightarrow>
          (let r =
             (if cfg_chunkSize cfg < 0 then ([], Panicked)
              else case uploadParts_loop cl (cfg_bucket cfg) (cfg_key cfg) uploadId
                     (nat (cfg_chunkSize cfg)) f 1 0 [] of
                  (evs, Done completedParts) \<Rightarrow> (evs, Done (sort_parts completedParts))
                | (evs, Failed e) \<Rightarrow> (evs, Failed e)
                | (evs, Panicked) \<Rightarrow> (evs, Panicked))
           in (EOpen (cfg_filePath cfg) None # fst r @ [EClose], snd r)))"

text \<open>
  \<^verbatim>\<open>main\<close> of part_000, lines 29 to 101: both checks end the process with
  \<^verbatim>\<open>os.Exit(1)\<close>; any error of \<^verbatim>\<open>uploadParts\<close> aborts the session before \<^verbatim>\<open>log.Fatalf\<close>.
\<close>

definition main_part_000 :: "env \<Rightarrow> flags \<Rightarrow> event list \<times> outcome" where
  "main_part_000 ev a =
     (if bucket a = [] \<or> key a = [] \<or> filePath a = [] then ([EUsage, EPrint MustProvide], Exit 1)
      else if chunkSize a < minimumChunkSize
        then ([EPrint (ChunkSizeTooSmall minimumChunkSize)], Exit 1)
      else
        (let cfg = \<lparr>cfg_bucket = bucket a, cfg_key = key a, cfg_filePath = filePath a,
                    cfg_chunkSize = chunkSize a\<rparr> in
         after [ELoadConfig (load_config ev)]
           (case load_config ev of
              Some e \<Rightarrow> ([], Fatal (LoadConfigFailed e))
            | None \<Rightarrow>
                (let r = create_resp (s3 ev) (cfg_bucket cfg) (cfg_key cfg) in
                 after [ECreate (cfg_bucket cfg) (cfg_key cfg) r]
                   (case r of
                      Inl e \<Rightarrow> ([], Fatal (CreateFailed e))
                    | Inr None \<Rightarrow> ([], Panic)
                    | Inr (Some uploadId) \<Rightarrow>
                        after [EPrint (UploadIdIs uploadId)]
                          (case uploadParts ev cfg (s3 ev) uploadId of
                             (evs, Failed e) \<Rightarrow>
                               (evs @ [EAbort (cfg_bucket cfg) (cfg_key cfg) uploadId
                                         (abort_resp (s3 ev))],
                                Fatal (UploadPartsFailed e))
                           | (evs, Panicked) \<Rightarrow> (evs, Panic)
                           | (evs, Done completedParts) \<Rightarrow>
                               (let c = complete_resp (s3 ev) completedParts in
                                after (evs @ [EComplete (bucket a) (key a) uploadId
                                                completedParts c])
                                  (case c of
                                     Some e \<Rightarrow> ([], Fatal (CompleteFailed e))
                                   | None \<Rightarrow> ([EPrint UploadCompleted], Returned)))))))))"

section \<open>src/unnamed/part_001\<close>

text \<open>
  \<^verbatim>\<open>main\<close> of part_001: there is no chunk size flag (the buffer has \<open>5 * 1024 * 1024\<close>
  bytes), missing arguments end the process with \<^verbatim>\<open>log.Fatal\<close>, and lines 64 to 122 are
  lines 70 to 127 of main.go.
\<close>

definition main_part_001 :: "env \<Rightarrow> flags \<Rightarrow> event list \<times> outcome" where
  "main_part_001 ev a =
     (if bucket a = [] \<or> key a = [] \<or> filePath a = [] then ([EUsage], Fatal MissingArguments)
      else
        after [ELoadConfig (load_config ev)]
          (case load_config ev of
             Some e \<Rightarrow> ([], Fatal (LoadConfigFailed e))
           | None \<Rightarrow>
               (case open_file ev (filePath a) of
                  Inl e \<Rightarrow> ([EOpen (filePath a) (Some e)], Fatal (OpenFailed e))
                | Inr f \<Rightarrow>
                    after [EOpen (filePath a) None]
                      (with_deferred_close
                         (let r = create_resp (s3 ev) (bucket a) (key a) in
                          after [ECreate (bucket a) (key a) r]
                            (case r of
                               Inl e \<Rightarrow> ([], Fatal (CreateFailed e))
                             | Inr None \<Rightarrow> ([], Panic)
                             | Inr (Some uploadID) \<Rightarrow>
                                 after [EPrint (UploadIdIs uploadID)]
                                   (main_upload (s3 ev) (bucket a) (key a) uploadID
                                      (5 * 1024 * 1024) f)))))))"

section \<open>Observations on traces\<close>

text \<open>
  What the claims observe in a trace: the upload, abort and completion calls, the payload
  and the part number of an upload call, the manifest of a completion call, the events of
  a loop iteration that goes on to the next one (a read without a fault, an upload that
  returned an \<^verbatim>\<open>ETag\<close>, a progress line), and the events a loop can produce at all.
\<close>

fun is_upload :: "event \<Rightarrow> bool" where
  "is_upload (EUploadPart b k pn u bs r) = True"
| "is_upload _ = False"

fun is_abort :: "event \<Rightarrow> bool" where
  "is_abort (EAbort b k u r) = True"
| "is_abort _ = False"

fun is_complete :: "event \<Rightarrow> bool" where
  "is_complete (EComplete b k u ps r) = True"
| "is_complete _ = False"

fun payload :: "event \<Rightarrow> byte list" where
  "payload (EUploadPart b k pn u bs r) = bs"
| "payload _ = []"

fun upload_number :: "event \<Rightarrow> int32 list" where
  "upload_number (EUploadPart b k pn u bs r) = [pn]"
| "upload_number _ = []"

definition upload_numbers :: "event list \<Rightarrow> int32 list" where
  "upload_numbers evs = concat (map upload_number evs)"

fun manifest :: "event \<Rightarrow> CompletedPart list list" where
  "manifest (EComplete b k u ps r) = [ps]"
| "manifest _ = []"

definition manifests :: "event list \<Rightarrow> CompletedPart list list" where
  "manifests evs = concat (map manifest evs)"

definition signed_numbers :: "CompletedPart list \<Rightarrow> int list" where
  "signed_numbers m = map (\<lambda>p. sint (PartNumber p)) m"

fun goes_on :: "event \<Rightarrow> bool" where
  "goes_on (ERead n bs err) = (read_fault err = None)"
| "goes_on (EUploadPart b k pn u bs r) = (case r of Inr (Some t) \<Rightarrow> True | _ \<Rightarrow> False)"
| "goes_on (EPrint m) = True"
| "goes_on _ = False"

fun loop_event :: "event \<Rightarrow> bool" where
  "loop_event (ERead n bs err) = True"
| "loop_event (EUploadPart b k pn u bs r) = True"
| "loop_event (EPrint m) = True"
| "loop_event (EAbort b k u r) = True"
| "loop_event _ = False"

text \<open>
  The events of a run of main.go up to the loop, when the session was created with the
  identifier \<open>uid\<close>; the events that can occur outside the loop and the completion; and the
  loop as \<^verbatim>\<open>main\<close> starts it.
\<close>

definition prologue :: "flags \<Rightarrow> string \<Rightarrow> event list" where
  "prologue a uid =
     validate a @
     [ELoadConfig None, EOpen (filePath a) None,
      ECreate (bucket a) (key a) (Inr (Some uid)), EPrint (UploadIdIs uid)]"

fun setup_event :: "event \<Rightarrow> bool" where
  "setup_event EUsage = True"
| "setup_event (EPrint m) = True"
| "setup_event (ELoadConfig r) = True"
| "setup_event (EOpen p r) = True"
| "setup_event EClose = True"
| "setup_event (ECreate b k r) = True"
| "setup_event _ = False"

abbreviation (input) the_loop :: "env \<Rightarrow> flags \<Rightarrow> os_file \<Rightarrow> string \<Rightarrow> event list \<times> result" where
  "the_loop ev a f uid \<equiv>
     main_loop (s3 ev) (bucket a) (key a) uid (nat (chunkSize a)) f 1 0 []"

section \<open>Concrete environments\<close>

text \<open>
  A storage service that accepts every request, an environment in which the configuration
  loads and every path opens the given file, and the flags of a run with a given chunk size.
\<close>

definition ok_client :: client where
  "ok_client =
     \<lparr>create_resp = (\<lambda>b k. Inr (Some ''id'')), upload_resp = (\<lambda>i. Inr (Some ''etag'')),
      abort_resp = None, complete_resp = (\<lambda>ps. None)\<rparr>"

definition env_of :: "os_file \<Rightarrow> client \<Rightarrow> env" where
  "env_of f cl = \<lparr>load_config = None, open_file = (\<lambda>p. Inr f), s3 = cl\<rparr>"

definition flags_of :: "int \<Rightarrow> flags" where
  "flags_of c = \<lparr>bucket = ''b'', key = ''k'', filePath = ''f'', chunkSize = c\<rparr>"

definition three_bytes :: os_file where
  "three_bytes = \<lparr>data = [1, 2, 3], fault = None\<rparr>"

definition rejecting_client :: client where
  "rejecting_client = ok_client\<lparr>complete_resp := (\<lambda>ps. Some ''denied'')\<rparr>"

definition failing_client :: client where
  "failing_client =
     ok_client\<lparr>upload_resp := (\<lambda>i. if i = 1 then Inl ''boom'' else Inr (Some ''etag''))\<rparr>"

text \<open>
  A file of 32 MiB, and a file of \<open>2 ^ 31\<close> chunks of 5 MiB (10 PiB), both of zero bytes.
\<close>

definition file_32MiB :: os_file where
  "file_32MiB = \<lparr>data = replicate (32 * 1024 * 1024) 0, fault = None\<rparr>"

definition file_10PiB :: os_file where
  "file_10PiB = \<lparr>data = replicate (2 ^ 31 * 5242880) 0, fault = None\<rparr>"

definition small_cfg :: UploadConfiguration where
  "small_cfg = \<lparr>cfg_bucket = ''b'', cfg_key = ''k'', cfg_filePath = ''f'', cfg_chunkSize = 2\<rparr>"

lemmas run_defs =
  main_def main_opened_def main_upload_def complete_upload_def validate_def
  main_part_000_def uploadParts_def main_part_001_def
  main_loop.simps uploadParts_loop.simps Read_def sort_parts_def
  after_def with_deferred_close_def minimumChunkSize_def
  env_of_def ok_client_def flags_of_def three_bytes_def rejecting_client_def
  failing_client_def small_cfg_def

section \<open>The upload loop\<close>

text \<open>
  Both loops iterate in the same way: a read, then an upload, then the next iteration on a
  strictly shorter rest of the file. The rule below is that iteration as an induction
  principle; the lemmas after it give one step of the loop of main.go in each of its five
  cases.
\<close>

lemma Read_shrinks:
  "Read f len = ((bs, err), f') \<Longrightarrow> bs \<noteq> [] \<Longrightarrow> length (data f') < length (data f)"
  by (auto simp: Read_def split: if_splits option.splits)

lemma loop_induct [case_names fault eof upfail noetag step]:
  fixes P :: "os_file \<Rightarrow> int32 \<Rightarrow> nat \<Rightarrow> CompletedPart list \<Rightarrow> bool"
  assumes fault: "\<And>f pn calls ps bs err f' e.
      Read f len = ((bs, err), f') \<Longrightarrow> read_fault err = Some e \<Longrightarrow> P f pn calls ps"
    and eof: "\<And>f pn calls ps err f'.
      Read f len = (([], err), f') \<Longrightarrow> read_fault err = None \<Longrightarrow> P f pn calls ps"
    and upfail: "\<And>f pn calls ps bs err f' e.
      Read f len = ((bs, err), f') \<Longrightarrow> read_fault err = None \<Longrightarrow> bs \<noteq> [] \<Longrightarrow>
      upload_resp cl calls = Inl e \<Longrightarrow> P f pn calls ps"
    and noetag: "\<And>f pn calls ps bs err f'.
      Read f len = ((bs, err), f') \<Longrightarrow> read_fault err = None \<Longrightarrow> bs \<noteq> [] \<Longrightarrow>
      upload_resp cl calls = Inr None \<Longrightarrow> P f pn calls ps"
    and step: "\<And>f pn calls ps bs err f' t.
      Read f len = ((bs, err), f') \<Longrightarrow> read_fault err = None \<Longrightarrow> bs \<noteq> [] \<Longrightarrow>
      upload_resp cl calls = Inr (Some t) \<Longrightarrow>
      P f' (pn + 1) (Suc calls) (ps @ [\<lparr>ETag = t, PartNumber = pn\<rparr>]) \<Longrightarrow> P f pn calls ps"
  shows "P f pn calls ps"
proof (induction f arbitrary: pn calls ps
    rule: measure_induct_rule [where f = "\<lambda>f. length (data f)"])
  case (less f pn calls ps)
  obtain bs err f' where r: "Read f len = ((bs, err), f')"
    by (metis prod.exhaust)
  show ?case
  proof (cases "read_fault err")
    case (Some e)
    with r show ?thesis by (rule fault)
  next
    case None
    show ?thesis
    proof (cases "bs = []")
      case True
      with r None show ?thesis using eof by blast
    next
      case False
      show ?thesis
      proof (cases "upload_resp cl calls")
        case (Inl e)
        with r None False show ?thesis using upfail by blast
      next
        case (Inr ot)
        show ?thesis
        proof (cases ot)
          case None
          with r \<open>read_fault err = None\<close> False Inr show ?thesis
            using noetag by blast
        next
          case (Some t)
          have "length (data f') < length (data f)"
            using r False by (rule Read_shrinks)
          then have "P f' (pn + 1) (Suc calls) (ps @ [\<lparr>ETag = t, PartNumber = pn\<rparr>])"
            by (rule less)
          moreover have "upload_resp cl calls = Inr (Some t)"
            using Inr Some by simp
          ultimately show ?thesis
            using r \<open>read_fault err = None\<close> False step by blast
        qed
      qed
    qed
  qed
qed

lemma main_loop_fault:
  "Read f len = ((bs, err), f') \<Longrightarrow> read_fault err = Some e \<Longrightarrow>
   main_loop cl b k u len f pn calls ps = ([ERead len bs err], Failed (ReadFailed e))"
  by (subst main_loop.simps) simp

lemma main_loop_eof:
  "Read f len = (([], err), f') \<Longrightarrow> read_fault err = None \<Longrightarrow>
   main_loop cl b k u len f pn calls ps = ([ERead len [] err], Done ps)"
  by (subst main_loop.simps) simp

lemma main_loop_upfail:
  "Read f len = ((bs, err), f') \<Longrightarrow> read_fault err = None \<Longrightarrow> bs \<noteq> [] \<Longrightarrow>
   upload_resp cl calls = Inl e \<Longrightarrow>
   main_loop cl b k u len f pn calls ps =
     ([ERead len bs err, EUploadPart b k pn u bs (Inl e), EAbort b k u (abort_resp cl)],
      Failed (UploadPartFailed pn e))"
  by (subst main_loop.simps) simp

lemma main_loop_noetag:
  "Read f len = ((bs, err), f') \<Longrightarrow> read_fault err = None \<Longrightarrow> bs \<noteq> [] \<Longrightarrow>
   upload_resp cl calls = Inr None \<Longrightarrow>
   main_loop cl b k u len f pn calls ps =
     ([ERead len bs err, EUploadPart b k pn u bs (Inr None)], Panicked)"
  by (subst main_loop.simps) simp

lemma main_loop_next:
  "Read f len = ((bs, err), f') \<Longrightarrow> read_fault err = None \<Longrightarrow> bs \<noteq> [] \<Longrightarrow>
   upload_resp cl calls = Inr (Some t) \<Longrightarrow>
   main_loop cl b k u len f pn calls ps =
     after [ERead len bs err, EUploadPart b k pn u bs (Inr (Some t)), EPrint (UploadedPart pn t)]
       (main_loop cl b k u len f' (pn + 1) (Suc calls) (ps @ [\<lparr>ETag = t, PartNumber = pn\<rparr>]))"
  by (subst main_loop.simps) simp

lemmas main_loop_steps = main_loop_fault main_loop_eof main_loop_upfail main_loop_noetag main_loop_next


lemma upload_numbers_simps [simp]:
  "upload_numbers [] = []"
  "upload_numbers (e # evs) = upload_number e @ upload_numbers evs"
  "upload_numbers (xs @ ys) = upload_numbers xs @ upload_numbers ys"
  by (simp_all add: upload_numbers_def)

lemma manifests_simps [simp]:
  "manifests [] = []"
  "manifests (e # evs) = manifest e @ manifests evs"
  "manifests (xs @ ys) = manifests xs @ manifests ys"
  by (simp_all add: manifests_def)

lemma fst_after [simp]: "fst (after evs r) = evs @ fst r"
  by (simp add: after_def)

lemma snd_after [simp]: "snd (after evs r) = snd r"
  by (simp add: after_def)

lemma main_loop_done_goes_on:
  "snd (main_loop cl b k u len f pn calls ps) = Done ps' \<Longrightarrow>
   list_all goes_on (fst (main_loop cl b k u len f pn calls ps))"
  by (induction f pn calls ps rule: loop_induct [where len = len and cl = cl])
     (simp_all add: main_loop_steps)

lemma main_loop_events:
  "list_all loop_event (fst (main_loop cl b k u len f pn calls ps))"
  by (induction f pn calls ps rule: loop_induct [where len = len and cl = cl])
     (simp_all add: main_loop_steps)

lemma main_loop_failed_upload:
  "EUploadPart b' k' pn' u' bs (Inl e) \<in> set (fst (main_loop cl b k u len f pn calls ps)) \<Longrightarrow>
   \<exists>pre. fst (main_loop cl b k u len f pn calls ps) =
           pre @ [EUploadPart b k pn' u bs (Inl e), EAbort b k u (abort_resp cl)] \<and>
         list_all goes_on pre \<and>
         snd (main_loop cl b k u len f pn calls ps) = Failed (UploadPartFailed pn' e) \<and>
         b' = b \<and> k' = k \<and> u' = u"
proof (induction f pn calls ps rule: loop_induct [where len = len and cl = cl])
  case (step f pn calls ps bs0 err f' t)
  let ?hd = "[ERead len bs0 err, EUploadPart b k pn u bs0 (Inr (Some t)), EPrint (UploadedPart pn t)]"
  let ?rest = "main_loop cl b k u len f' (pn + 1) (Suc calls) (ps @ [\<lparr>ETag = t, PartNumber = pn\<rparr>])"
  have eq: "main_loop cl b k u len f pn calls ps = after ?hd ?rest"
    using step.hyps by (rule main_loop_next)
  with step.prems have "EUploadPart b' k' pn' u' bs (Inl e) \<in> set (fst ?rest)"
    by auto
  from step.IH [OF this] obtain pre where
    pre: "fst ?rest = pre @ [EUploadPart b k pn' u bs (Inl e), EAbort b k u (abort_resp cl)]"
      "list_all goes_on pre" "snd ?rest = Failed (UploadPartFailed pn' e)"
      "b' = b" "k' = k" "u' = u"
    by blast
  have "fst (main_loop cl b k u len f pn calls ps) =
        (?hd @ pre) @ [EUploadPart b k pn' u bs (Inl e), EAbort b k u (abort_resp cl)]"
    using eq pre(1) by simp
  moreover have "list_all goes_on (?hd @ pre)"
    using pre(2) step.hyps by simp
  ultimately show ?case
    using eq pre(3-6) by (metis snd_after)
qed (auto simp: main_loop_steps)

lemma numbers_shift:
  "pn # map (\<lambda>i. pn + 1 + of_nat i) [0..<n] = map (\<lambda>i. pn + of_nat i) [0..<Suc n]"
proof -
  have "[0..<Suc n] = 0 # map Suc [0..<n]"
    by (simp add: upt_conv_Cons map_Suc_upt del: upt_Suc)
  then show ?thesis
    by (simp add: comp_def ac_simps del: upt_Suc)
qed

lemma main_loop_numbers:
  "upload_numbers (fst (main_loop cl b k u len f pn calls ps)) =
   map (\<lambda>i. pn + of_nat i)
     [0..<length (upload_numbers (fst (main_loop cl b k u len f pn calls ps)))]"
proof (induction f pn calls ps rule: loop_induct [where len = len and cl = cl])
  case (step f pn calls ps bs err f' t)
  let ?rest = "main_loop cl b k u len f' (pn + 1) (Suc calls) (ps @ [\<lparr>ETag = t, PartNumber = pn\<rparr>])"
  let ?n = "length (upload_numbers (fst ?rest))"
  have eq: "upload_numbers (fst (main_loop cl b k u len f pn calls ps)) =
      pn # upload_numbers (fst ?rest)"
    using step.hyps by (simp add: main_loop_next)
  also have "\<dots> = pn # map (\<lambda>i. pn + 1 + of_nat i) [0..<?n]"
    using step.IH by simp
  also have "\<dots> = map (\<lambda>i. pn + of_nat i) [0..<Suc ?n]"
    by (rule numbers_shift)
  finally show ?case by (simp del: upt_Suc)
qed (simp_all add: main_loop_steps)

lemma main_loop_done_parts:
  "snd (main_loop cl b k u len f pn calls ps) = Done ps' \<Longrightarrow>
   map PartNumber ps' =
     map PartNumber ps @ upload_numbers (fst (main_loop cl b k u len f pn calls ps))"
  by (induction f pn calls ps rule: loop_induct [where len = len and cl = cl])
     (simp_all add: main_loop_steps)

lemma Read_payload:
  "Read f len = ((bs, err), f') \<Longrightarrow> read_fault err = None \<Longrightarrow> 0 < len \<Longrightarrow>
   bs @ data f' = data f \<and> (bs = [] \<longrightarrow> data f = [])"
  by (auto simp: Read_def split: if_splits option.splits)

lemma main_loop_payloads:
  "snd (main_loop cl b k u len f pn calls ps) = Done ps' \<Longrightarrow> 0 < len \<Longrightarrow>
   concat (map payload (fst (main_loop cl b k u len f pn calls ps))) = data f"
proof (induction f pn calls ps rule: loop_induct [where len = len and cl = cl])
  case (eof f pn calls ps err f')
  then show ?case using Read_payload [of f len "[]" err f'] by (simp add: main_loop_steps)
next
  case (step f pn calls ps bs err f' t)
  then show ?case using Read_payload [of f len bs err f'] by (simp add: main_loop_steps)
qed (simp_all add: main_loop_steps)

section \<open>The runs of main.go\<close>

text \<open>
  A run of main.go ends before the loop, or in the loop with a failure or a panic, or at
  the completion, which the service rejects or accepts.
\<close>

lemma setup_validate: "list_all setup_event (validate a)"
  by (simp add: validate_def)

lemma setup_prologue: "list_all setup_event (prologue a uid)"
  by (simp add: prologue_def setup_validate)

lemma main_run_cases [case_names early failed panicked rejected completed]:
  obtains
    (early) "list_all setup_event (fst (main ev a))" "snd (main ev a) \<noteq> Returned"
      "load_config ev \<noteq> None \<or> (\<exists>e. open_file ev (filePath a) = Inl e) \<or>
       (\<forall>uid. create_resp (s3 ev) (bucket a) (key a) \<noteq> Inr (Some uid)) \<or> chunkSize a < 0"
  | (failed) f uid e where
      "open_file ev (filePath a) = Inr f" "0 \<le> chunkSize a"
      "snd (the_loop ev a f uid) = Failed e"
      "main ev a = (prologue a uid @ fst (the_loop ev a f uid), Fatal e)"
      "create_resp (s3 ev) (bucket a) (key a) = Inr (Some uid)"
  | (panicked) f uid where
      "open_file ev (filePath a) = Inr f" "0 \<le> chunkSize a"
      "snd (the_loop ev a f uid) = Panicked"
      "main ev a = (prologue a uid @ fst (the_loop ev a f uid) @ [EClose], Panic)"
      "create_resp (s3 ev) (bucket a) (key a) = Inr (Some uid)"
  | (rejected) f uid ps e where
      "open_file ev (filePath a) = Inr f" "0 \<le> chunkSize a"
      "snd (the_loop ev a f uid) = Done ps"
      "main ev a =
         (prologue a uid @ fst (the_loop ev a f uid) @
          [EComplete (bucket a) (key a) uid (sort_parts ps) (Some e)],
          Fatal (CompleteFailed e))"
      "create_resp (s3 ev) (bucket a) (key a) = Inr (Some uid)"
      "complete_resp (s3 ev) (sort_parts ps) = Some e"
  | (completed) f uid ps where
      "open_file ev (filePath a) = Inr f" "0 \<le> chunkSize a"
      "snd (the_loop ev a f uid) = Done ps"
      "main ev a =
         (prologue a uid @ fst (the_loop ev a f uid) @
          [EComplete (bucket a) (key a) uid (sort_parts ps) None,
           EPrint UploadCompleted, EClose],
          Returned)"
      "create_resp (s3 ev) (bucket a) (key a) = Inr (Some uid)"
      "complete_resp (s3 ev) (sort_parts ps) = None"
proof (cases "load_config ev")
  case (Some e)
  then have "list_all setup_event (fst (main ev a))" "snd (main ev a) \<noteq> Returned"
    by (simp_all add: main_def setup_validate)
  then show ?thesis by (rule early) (simp add: Some)
next
  case None
  note cfg = this
  show ?thesis
  proof (cases "open_file ev (filePath a)")
    case (Inl e)
    with cfg have "list_all setup_event (fst (main ev a))" "snd (main ev a) \<noteq> Returned"
      by (simp_all add: main_def setup_validate)
    then show ?thesis by (rule early) (simp add: Inl)
  next
    case (Inr f)
    note opn = this
    have m: "main ev a =
        after (validate a @ [ELoadConfig None, EOpen (filePath a) None])
          (main_opened (s3 ev) a f)"
      using cfg opn by (simp add: main_def after_def)
    show ?thesis
    proof (cases "\<exists>uid. create_resp (s3 ev) (bucket a) (key a) = Inr (Some uid) \<and> 0 \<le> chunkSize a")
      case False
      then have "list_all setup_event (fst (main_opened (s3 ev) a f)) \<and>
                 snd (main_opened (s3 ev) a f) \<noteq> Returned"
        by (auto simp: main_opened_def with_deferred_close_def after_def Let_def
            split: sum.splits option.splits)
      with m have "list_all setup_event (fst (main ev a))" "snd (main ev a) \<noteq> Returned"
        by (simp_all add: setup_validate)
      then show ?thesis by (rule early) (use False in \<open>auto simp: not_le\<close>)
    next
      case True
      then obtain uid where
        uid: "create_resp (s3 ev) (bucket a) (key a) = Inr (Some uid)" and c: "0 \<le> chunkSize a"
        by blast
      have o: "main_opened (s3 ev) a f =
          with_deferred_close
            (after [ECreate (bucket a) (key a) (Inr (Some uid)), EPrint (UploadIdIs uid)]
               (main_upload (s3 ev) (bucket a) (key a) uid (nat (chunkSize a)) f))"
        using uid c by (simp add: main_opened_def after_def Let_def)
      obtain evs r where l: "the_loop ev a f uid = (evs, r)"
        by (metis prod.exhaust)
      show ?thesis
      proof (cases r)
        case (Failed e)
        with l m o have run: "main ev a = (prologue a uid @ fst (the_loop ev a f uid), Fatal e)"
          by (simp add: main_upload_def with_deferred_close_def after_def prologue_def)
        show ?thesis by (rule failed [OF opn c _ run uid]) (simp add: l Failed)
      next
        case Panicked
        with l m o have run:
          "main ev a = (prologue a uid @ fst (the_loop ev a f uid) @ [EClose], Panic)"
          by (simp add: main_upload_def with_deferred_close_def after_def prologue_def)
        show ?thesis by (rule panicked [OF opn c _ run uid]) (simp add: l Panicked)
      next
        case (Done ps)
        show ?thesis
        proof (cases "complete_resp (s3 ev) (sort_parts ps)")
          case None
          with Done l m o have run: "main ev a =
            (prologue a uid @ fst (the_loop ev a f uid) @
             [EComplete (bucket a) (key a) uid (sort_parts ps) None,
              EPrint UploadCompleted, EClose], Returned)"
            by (simp add: main_upload_def complete_upload_def with_deferred_close_def Let_def
                after_def prologue_def)
          show ?thesis by (rule completed [OF opn c _ run uid]) (simp_all add: l Done None)
        next
          case (Some e)
          with Done l m o have run: "main ev a =
            (prologue a uid @ fst (the_loop ev a f uid) @
             [EComplete (bucket a) (key a) uid (sort_parts ps) (Some e)],
             Fatal (CompleteFailed e))"
            by (simp add: main_upload_def complete_upload_def with_deferred_close_def Let_def
                after_def prologue_def)
          show ?thesis by (rule rejected [OF opn c _ run uid]) (simp_all add: l Done Some)
        qed
      qed
    qed
  qed
qed

section \<open>What the events of a run show\<close>

lemma sint_of_nat_32:
  assumes "n < 2 ^ 31"
  shows "sint (of_nat n :: int32) = int n"
proof -
  have "sint (of_nat n :: int32) = sint (word_of_int (int n) :: int32)"
    by simp
  also have "\<dots> = signed_take_bit 31 (int n)"
    by (simp only: sint_sbintrunc') simp
  also have "\<dots> = int n"
    using assms by (intro signed_take_bit_int_eq_self) auto
  finally show ?thesis .
qed

lemma setup_event_observed:
  "setup_event x \<Longrightarrow> \<not> is_upload x \<and> \<not> is_abort x \<and> \<not> is_complete x \<and>
     upload_number x = [] \<and> manifest x = [] \<and> payload x = []"
  by (cases x) simp_all

lemma loop_event_observed: "loop_event x \<Longrightarrow> \<not> is_complete x \<and> manifest x = []"
  by (cases x) simp_all

lemma goes_on_observed: "goes_on x \<Longrightarrow> \<not> is_abort x \<and> \<not> is_complete x \<and> loop_event x"
  by (cases x) simp_all

lemma setup_events_observed:
  assumes "list_all setup_event evs"
  shows "upload_numbers evs = []" "manifests evs = []" "concat (map payload evs) = []"
    "filter is_complete evs = []" "filter is_abort evs = []" "filter is_upload evs = []"
  using assms by (induction evs) (auto dest: setup_event_observed)

lemma loop_events_observed:
  assumes "list_all loop_event evs"
  shows "manifests evs = []" "filter is_complete evs = []"
  using assms by (induction evs) (auto dest: loop_event_observed)

lemma goes_on_events_observed:
  assumes "list_all goes_on evs"
  shows "filter is_abort evs = []" "list_all loop_event evs"
  using assms by (induction evs) (auto dest: goes_on_observed)

lemma prologue_observed:
  "upload_numbers (prologue a uid) = []" "manifests (prologue a uid) = []"
  "concat (map payload (prologue a uid)) = []" "filter is_complete (prologue a uid) = []"
  "filter is_abort (prologue a uid) = []" "filter is_upload (prologue a uid) = []"
  using setup_events_observed [OF setup_prologue] by blast+

lemma no_complete_before_completion:
  "EComplete b' k' u' m r \<notin> set (prologue a uid @ fst (main_loop cl b k u len f pn calls ps))"
  using main_loop_events [of cl b k u len f pn calls ps] setup_prologue [of a uid]
  by (auto simp: list_all_iff dest: setup_event_observed loop_event_observed)

lemma main_upload_numbers:
  "upload_numbers (fst (main ev a)) =
   map (\<lambda>i. of_nat (Suc i)) [0..<length (upload_numbers (fst (main ev a)))]"
proof -
  have loop: "upload_numbers (fst (the_loop ev a f uid)) =
      map (\<lambda>i. of_nat (Suc i)) [0..<length (upload_numbers (fst (the_loop ev a f uid)))]"
    for f uid
    using main_loop_numbers [of "s3 ev" "bucket a" "key a" uid "nat (chunkSize a)" f 1 0 "[]"]
    by simp
  show ?thesis
  proof (cases ev a rule: main_run_cases)
    case early
    then show ?thesis by (simp add: setup_events_observed)
  next
    case (failed f uid e)
    then show ?thesis using loop by (simp add: prologue_observed)
  next
    case (panicked f uid)
    then show ?thesis using loop by (simp add: prologue_observed)
  next
    case (rejected f uid ps e)
    then show ?thesis using loop by (simp add: prologue_observed)
  next
    case (completed f uid ps)
    then show ?thesis using loop by (simp add: prologue_observed)
  qed
qed

lemma numbers_signed:
  assumes "n < 2 ^ 31"
  shows "map sint (map (\<lambda>i. of_nat (Suc i) :: int32) [0..<n]) = map (\<lambda>i. int (Suc i)) [0..<n]"
proof -
  have "sint (of_nat (Suc i) :: int32) = int (Suc i)" if "i < n" for i
    using that assms by (intro sint_of_nat_32) simp
  then show ?thesis by simp
qed

lemma last_numbered:
  "n \<noteq> 0 \<Longrightarrow> last (map (\<lambda>i. of_nat (Suc i) :: int32) [0..<n]) = of_nat n"
  by (cases n) simp_all

lemma create_in_prologue: "ECreate (bucket a) (key a) (Inr (Some uid)) \<in> set (prologue a uid)"
  by (simp add: prologue_def)

lemma failed_upload_not_setup:
  "list_all setup_event evs \<Longrightarrow> EUploadPart b k pn u bs r \<notin> set evs"
  by (auto simp: list_all_iff)

section \<open>Runs in which nothing fails\<close>

text \<open>
  When the file has no fault, the buffer is not empty and every upload succeeds, the loop
  ends at the end of the file, after \<open>n\<close> uploads with
  \<open>length (data f) \<le> n * len < length (data f) + len\<close>, that is, \<open>n\<close> is the size of the file
  divided by the buffer length, rounded up.
\<close>

lemma Read_no_fault:
  assumes "Read f len = ((bs, err), f')" "fault f = None" "0 < len"
  shows "read_fault err = None" "fault f' = None" "bs = take len (data f)"
    "data f' = drop len (data f)"
  using assms by (auto simp: Read_def split: if_splits)

lemma count_step:
  fixes L len n :: nat
  assumes "0 < len" "0 < L" "L - len \<le> n * len" "n * len < (L - len) + len"
  shows "L \<le> Suc n * len \<and> Suc n * len < L + len"
proof (cases "len \<le> L")
  case True
  with assms show ?thesis by simp
next
  case False
  with assms have "n * len < 1 * len" by simp
  then have "n = 0" by (simp only: mult_less_cancel2) simp
  with False assms show ?thesis by simp
qed

lemma main_loop_all_succeed:
  assumes "0 < len" "\<forall>i. \<exists>t. upload_resp cl i = Inr (Some t)"
  shows "fault f = None \<Longrightarrow>
    (\<exists>ps'. snd (main_loop cl b k u len f pn calls ps) = Done ps') \<and>
    length (data f) \<le> length (upload_numbers (fst (main_loop cl b k u len f pn calls ps))) * len \<and>
    length (upload_numbers (fst (main_loop cl b k u len f pn calls ps))) * len
      < length (data f) + len"
proof (induction f pn calls ps rule: loop_induct [where len = len and cl = cl])
  case (fault f pn calls ps bs err f' e)
  then show ?case using Read_no_fault(1) [of f len bs err f'] assms(1) by simp
next
  case (eof f pn calls ps err f')
  then show ?case
    using Read_payload [of f len "[]" err f'] assms(1) by (simp add: main_loop_steps)
next
  case (upfail f pn calls ps bs err f' e)
  then show ?case using assms(2) by (metis sum.distinct(1))
next
  case (noetag f pn calls ps bs err f')
  then show ?case using assms(2) by (metis option.distinct(1) sum.inject(2))
next
  case (step f pn calls ps bs err f' t)
  let ?rest = "main_loop cl b k u len f' (pn + 1) (Suc calls) (ps @ [\<lparr>ETag = t, PartNumber = pn\<rparr>])"
  let ?n = "length (upload_numbers (fst ?rest))"
  have f': "fault f' = None" "data f' = drop len (data f)" "bs = take len (data f)"
    using Read_no_fault [OF step.hyps(1) step.prems assms(1)] by simp_all
  have pos: "0 < length (data f)"
    using f'(3) step.hyps(3) by auto
  from step.IH [OF f'(1)] obtain ps' where
    ih: "snd ?rest = Done ps'" "length (data f') \<le> ?n * len"
      "?n * len < length (data f') + len"
    by blast
  have eq: "main_loop cl b k u len f pn calls ps =
      after [ERead len bs err, EUploadPart b k pn u bs (Inr (Some t)), EPrint (UploadedPart pn t)]
        ?rest"
    using step.hyps by (rule main_loop_next)
  have n: "length (upload_numbers (fst (main_loop cl b k u len f pn calls ps))) = Suc ?n"
    by (simp add: eq)
  have "length (data f) \<le> Suc ?n * len \<and> Suc ?n * len < length (data f) + len"
    using assms(1) pos ih(2,3) unfolding f'(2) length_drop by (rule count_step)
  then show ?case
    using ih(1) n eq by simp
qed

lemma ceiling_of_count:
  fixes L n :: nat and c :: int
  assumes "0 < c" "L \<le> n * nat c" "n * nat c < L + nat c"
  shows "int n = \<lceil>real L / real_of_int c\<rceil>"
proof -
  define d where "d = nat c"
  have d: "real_of_int c = real d" "0 < real d"
    using assms(1) by (simp_all add: d_def)
  have "real L \<le> real (n * d)"
    using assms(2) unfolding d_def by (simp only: of_nat_le_iff)
  then have "real L \<le> real n * real d"
    by simp
  then have up: "real L / real d \<le> real n"
    using d(2) by (simp only: pos_divide_le_eq)
  have "real (n * d) < real (L + d)"
    using assms(3) unfolding d_def by (simp only: of_nat_less_iff)
  then have "(real n - 1) * real d < real L"
    by (simp add: algebra_simps)
  then have lo: "real n - 1 < real L / real d"
    using d(2) by (simp only: pos_less_divide_eq)
  have "\<lceil>real L / real d\<rceil> = int n"
  proof (rule ceiling_unique)
    show "of_int (int n) - 1 < real L / real d" using lo by simp
    show "real L / real d \<le> of_int (int n)" using up by simp
  qed
  then show ?thesis
    by (simp only: d(1))
qed

lemma main_observed_in_loop:
  assumes "load_config ev = None" "open_file ev (filePath a) = Inr f"
    "create_resp (s3 ev) (bucket a) (key a) = Inr (Some uid)" "0 \<le> chunkSize a"
  shows "upload_numbers (fst (main ev a)) = upload_numbers (fst (the_loop ev a f uid))"
    and "concat (map payload (fst (main ev a))) = concat (map payload (fst (the_loop ev a f uid)))"
    and "snd (main ev a) = Returned \<Longrightarrow> \<exists>ps. snd (the_loop ev a f uid) = Done ps"
proof -
  have "upload_numbers (fst (main ev a)) = upload_numbers (fst (the_loop ev a f uid)) \<and>
    concat (map payload (fst (main ev a))) = concat (map payload (fst (the_loop ev a f uid))) \<and>
    (snd (main ev a) = Returned \<longrightarrow> (\<exists>ps. snd (the_loop ev a f uid) = Done ps))"
  proof (cases ev a rule: main_run_cases)
    case early
    then show ?thesis using assms by auto
  next
    case (failed f' uid' e)
    then show ?thesis using assms by (simp add: prologue_observed)
  next
    case (panicked f' uid')
    then show ?thesis using assms by (simp add: prologue_observed)
  next
    case (rejected f' uid' ps e)
    then show ?thesis using assms by (simp add: prologue_observed)
  next
    case (completed f' uid' ps)
    then show ?thesis using assms by (simp add: prologue_observed)
  qed
  then show "upload_numbers (fst (main ev a)) = upload_numbers (fst (the_loop ev a f uid))"
    and "concat (map payload (fst (main ev a))) = concat (map payload (fst (the_loop ev a f uid)))"
    and "snd (main ev a) = Returned \<Longrightarrow> \<exists>ps. snd (the_loop ev a f uid) = Done ps"
    by simp_all
qed

lemma file_32MiB_facts: "fault file_32MiB = None" "length (data file_32MiB) = 33554432"
  by (simp_all add: file_32MiB_def)

section \<open>Successful runs\<close>

lemma main_manifest:
  assumes "snd (main ev a) = Returned"
  shows "\<exists>ps. manifests (fst (main ev a)) = [sort_parts ps] \<and>
              map PartNumber ps = upload_numbers (fst (main ev a)) \<and>
              (\<forall>x \<in> set (fst (main ev a)). is_upload x \<longrightarrow> goes_on x)"
proof (cases ev a rule: main_run_cases)
  case (completed f uid ps)
  let ?loop = "fst (the_loop ev a f uid)"
  have on: "list_all goes_on ?loop"
    using completed(3) by (rule main_loop_done_goes_on)
  have "manifests ?loop = []"
    using loop_events_observed(1) [OF goes_on_events_observed(2) [OF on]] .
  then have "manifests (fst (main ev a)) = [sort_parts ps]"
    using completed(4) by (simp add: prologue_observed)
  moreover have "map PartNumber ps = upload_numbers ?loop"
    using main_loop_done_parts [OF completed(3)] by simp
  then have "map PartNumber ps = upload_numbers (fst (main ev a))"
    using completed(4) by (simp add: prologue_observed)
  moreover have "\<forall>x \<in> set (fst (main ev a)). is_upload x \<longrightarrow> goes_on x"
    using completed(4) on setup_prologue [of a uid]
    by (auto simp: list_all_iff dest: setup_event_observed)
  ultimately show ?thesis by blast
qed (use assms in simp_all)

lemma sorted_numbers: "sorted (map (\<lambda>i. int (Suc i)) [0..<n])"
  by (induction n) (auto simp: sorted_append)

lemma numbers_from_one: "map (\<lambda>i. int (Suc i)) [0..<n] = map int [1..<Suc n]"
proof -
  have "[1..<Suc n] = map Suc [0..<n]"
    by (simp add: map_Suc_upt del: upt_Suc)
  then show ?thesis by (simp add: comp_def del: upt_Suc)
qed

lemma main_all_succeed:
  assumes "0 < chunkSize a" "load_config ev = None" "open_file ev (filePath a) = Inr f"
    "fault f = None" "create_resp (s3 ev) (bucket a) (key a) = Inr (Some uid)"
    "\<forall>i. \<exists>t. upload_resp (s3 ev) i = Inr (Some t)" "\<forall>m. complete_resp (s3 ev) m = None"
  shows "snd (main ev a) = Returned"
proof -
  have len: "0 < nat (chunkSize a)"
    using assms(1) by simp
  have fin: "\<exists>ps. snd (the_loop ev a f uid) = Done ps"
    using main_loop_all_succeed [OF len assms(6) assms(4)] by simp
  show ?thesis
  proof (cases ev a rule: main_run_cases)
    case early
    then show ?thesis using assms by auto
  next
    case (failed f' uid' e)
    then show ?thesis using assms fin by auto
  next
    case (panicked f' uid')
    then show ?thesis using assms fin by auto
  next
    case (rejected f' uid' ps e)
    then show ?thesis using assms by auto
  next
    case (completed f' uid' ps)
    then show ?thesis by simp
  qed
qed

lemma file_10PiB_facts:
  "fault file_10PiB = None" "length (data file_10PiB) = 11258999068426240"
  by (simp_all add: file_10PiB_def)

lemma sint_wrapped: "sint (2147483648 :: int32) = - 2147483648"
  by simp

lemma main_round_trip:
  assumes "snd (main ev a) = Returned" "open_file ev (filePath a) = Inr f" "0 < chunkSize a"
  shows "concat (map payload (fst (main ev a))) = data f"
proof (cases ev a rule: main_run_cases)
  case (completed f' uid ps)
  then have "concat (map payload (fst (the_loop ev a f uid))) = data f"
    using assms(2,3) main_loop_payloads [of "s3 ev" "bucket a" "key a" uid "nat (chunkSize a)" f 1 0 "[]" ps]
    by simp
  with completed show ?thesis
    using assms(2) by (simp add: prologue_observed)
qed (use assms in simp_all)

section \<open>A failed read (C1)\<close>

text \<open>
  In part_000 a failed read is returned by \<^verbatim>\<open>uploadParts\<close>, and \<^verbatim>\<open>main\<close> aborts the session
  before it reports the failure.
\<close>

lemma part_000_read_failure_aborts:
  "main_part_000 (env_of \<lparr>data = [1, 2, 3], fault = Some (0, ''EIO'')\<rparr> ok_client)
     (flags_of 5242880) =
   ([ELoadConfig None, ECreate ''b'' ''k'' (Inr (Some ''id'')), EPrint (UploadIdIs ''id''),
     EOpen ''f'' None, ERead 5242880 [] (Some (ReadFault ''EIO'')), EClose,
     EAbort ''b'' ''k'' ''id'' None],
    Fatal (UploadPartsFailed (ReadFailed ''EIO'')))"
  by (simp add: run_defs)

text \<open>
  In main.go a run with a failed read never contains an abort call, and never closes the
  file: it ends with \<^verbatim>\<open>log.Fatalf\<close> reporting the read.
\<close>

lemma main_loop_read_fault:
  "ERead n bs (Some (ReadFault e)) \<in> set (fst (main_loop cl b k u len f pn calls ps)) \<Longrightarrow>
   snd (main_loop cl b k u len f pn calls ps) = Failed (ReadFailed e) \<and>
   filter is_abort (fst (main_loop cl b k u len f pn calls ps)) = []"
  by (induction f pn calls ps rule: loop_induct [where len = len and cl = cl])
     (auto simp: main_loop_steps)

lemma read_fault_not_setup:
  "list_all setup_event evs \<Longrightarrow> ERead n bs err \<notin> set evs"
  by (auto simp: list_all_iff)

lemma no_close_before_end:
  "EClose \<notin> set (prologue a uid @ fst (main_loop cl b k u len f pn calls ps))"
  using main_loop_events [of cl b k u len f pn calls ps]
  by (auto simp: list_all_iff prologue_def validate_def)

lemma main_read_failure_never_aborts:
  assumes "ERead n bs (Some (ReadFault e)) \<in> set (fst (main ev a))"
  shows "snd (main ev a) = Fatal (ReadFailed e) \<and>
         filter is_abort (fst (main ev a)) = [] \<and> EClose \<notin> set (fst (main ev a))"
proof (cases ev a rule: main_run_cases)
  case early
  then show ?thesis using assms read_fault_not_setup by blast
next
  case (failed f uid e')
  then have "ERead n bs (Some (ReadFault e)) \<in> set (fst (the_loop ev a f uid))"
    using assms read_fault_not_setup [OF setup_prologue] by auto
  from main_loop_read_fault [OF this] show ?thesis
    using failed no_close_before_end [of a uid "s3 ev" "bucket a" "key a" uid "nat (chunkSize a)" f 1 0 "[]"]
    by (simp add: prologue_observed)
next
  case (panicked f uid)
  then have "ERead n bs (Some (ReadFault e)) \<in> set (fst (the_loop ev a f uid))"
    using assms read_fault_not_setup [OF setup_prologue] by auto
  from main_loop_read_fault [OF this] show ?thesis
    using panicked by simp
next
  case (rejected f uid ps e')
  then have "ERead n bs (Some (ReadFault e)) \<in> set (fst (the_loop ev a f uid))"
    using assms read_fault_not_setup [OF setup_prologue] by auto
  from main_loop_read_fault [OF this] show ?thesis
    using rejected by simp
next
  case (completed f uid ps)
  then have "ERead n bs (Some (ReadFault e)) \<in> set (fst (the_loop ev a f uid))"
    using assms read_fault_not_setup [OF setup_prologue] by auto
  from main_loop_read_fault [OF this] show ?thesis
    using completed by simp
qed

text \<open>
  C1. The claim: whenever \<^verbatim>\<open>f.Read\<close> returns an error other than end-of-stream after the
  session was created, \<^verbatim>\<open>AbortMultipartUpload\<close> is invoked before the run ends. In main.go
  the failed read goes straight to \<^verbatim>\<open>log.Fatalf\<close> (line 74): on a file whose first read
  fails, the run is the one below, with the session created and no abort call.
\<close>

theorem main_read_failure_leaves_session_open:
  "main (env_of \<lparr>data = [1, 2, 3], fault = Some (0, ''EIO'')\<rparr> ok_client) (flags_of 5242880) =
   ([ELoadConfig None, EOpen ''f'' None, ECreate ''b'' ''k'' (Inr (Some ''id'')),
     EPrint (UploadIdIs ''id''), ERead 5242880 [] (Some (ReadFault ''EIO''))],
    Fatal (ReadFailed ''EIO''))"
  by (simp add: run_defs)

text \<open>The same holds of part_001, whose loop is the loop of main.go.\<close>

lemma part_001_read_failure_leaves_session_open:
  "main_part_001 (env_of \<lparr>data = [1, 2, 3], fault = Some (0, ''EIO'')\<rparr> ok_client)
     (flags_of 5242880) =
   ([ELoadConfig None, EOpen ''f'' None, ECreate ''b'' ''k'' (Inr (Some ''id'')),
     EPrint (UploadIdIs ''id''), ERead 5242880 [] (Some (ReadFault ''EIO''))],
    Fatal (ReadFailed ''EIO''))"
  by (simp add: run_defs)

section \<open>Closing the file (C2)\<close>

text \<open>
  In part_000 the file is opened and closed inside \<^verbatim>\<open>uploadParts\<close>, so it is closed when
  the completion fails.
\<close>

lemma part_000_completion_failure_closes:
  "main_part_000
     (env_of \<lparr>data = [1, 2, 3], fault = None\<rparr>
        (ok_client\<lparr>complete_resp := (\<lambda>ps. Some ''denied'')\<rparr>))
     (flags_of 5242880) =
   ([ELoadConfig None, ECreate ''b'' ''k'' (Inr (Some ''id'')), EPrint (UploadIdIs ''id''),
     EOpen ''f'' None, ERead 5242880 [1, 2, 3] None,
     EUploadPart ''b'' ''k'' 1 ''id'' [1, 2, 3] (Inr (Some ''etag'')),
     EPrint (UploadedPart 1 ''etag''), ERead 5242880 [] (Some EOF), EClose,
     EComplete ''b'' ''k'' ''id'' [\<lparr>ETag = ''etag'', PartNumber = 1\<rparr>] (Some ''denied'')],
    Fatal (CompleteFailed ''denied''))"
  by (simp add: run_defs)

text \<open>
  In main.go the file, once opened, is closed exactly when the run ends by a return or a
  panic.
\<close>

lemma main_closes_iff:
  "EClose \<in> set (fst (main ev a)) \<longleftrightarrow>
   (\<exists>f. open_file ev (filePath a) = Inr f) \<and> load_config ev = None \<and>
   runs_deferred (snd (main ev a))"
proof (cases "load_config ev")
  case (Some e)
  then show ?thesis by (simp add: main_def validate_def)
next
  case None
  show ?thesis
  proof (cases "open_file ev (filePath a)")
    case (Inl e)
    with None show ?thesis by (simp add: main_def validate_def)
  next
    case (Inr f)
    show ?thesis
    proof (cases ev a rule: main_run_cases)
      case early
      have "main ev a = after (validate a @ [ELoadConfig None, EOpen (filePath a) None])
          (main_opened (s3 ev) a f)"
        using None Inr by (simp add: main_def after_def)
      moreover have "EClose \<in> set (fst (main_opened (s3 ev) a f)) \<longleftrightarrow>
          runs_deferred (snd (main_opened (s3 ev) a f))"
        using early(3) None Inr
        by (auto simp: main_opened_def with_deferred_close_def after_def Let_def
            split: sum.splits option.splits)
      ultimately show ?thesis using None Inr by (simp add: validate_def)
    next
      case (failed f' uid e)
      then show ?thesis
        using None Inr no_close_before_end [of a uid "s3 ev" "bucket a" "key a" uid "nat (chunkSize a)" f' 1 0 "[]"]
        by simp
    next
      case (panicked f' uid)
      then show ?thesis using None Inr by simp
    next
      case (rejected f' uid ps e)
      then show ?thesis
        using None Inr no_close_before_end [of a uid "s3 ev" "bucket a" "key a" uid "nat (chunkSize a)" f' 1 0 "[]"]
        by simp
    next
      case (completed f' uid ps)
      then show ?thesis using None Inr by simp
    qed
  qed
qed

text \<open>
  C2. The claim: every run that opens the file closes it before the process ends, also
  when the completion fails. In main.go the close is deferred (line 50) and every failure
  ends the process with \<^verbatim>\<open>log.Fatalf\<close>, which exits without running deferred calls: the
  run below opens the file, fails at the completion, and has no close.
\<close>

theorem main_completion_failure_skips_close:
  "main
     (env_of \<lparr>data = [1, 2, 3], fault = None\<rparr>
        (ok_client\<lparr>complete_resp := (\<lambda>ps. Some ''denied'')\<rparr>))
     (flags_of 5242880) =
   ([ELoadConfig None, EOpen ''f'' None, ECreate ''b'' ''k'' (Inr (Some ''id'')),
     EPrint (UploadIdIs ''id''), ERead 5242880 [1, 2, 3] None,
     EUploadPart ''b'' ''k'' 1 ''id'' [1, 2, 3] (Inr (Some ''etag'')),
     EPrint (UploadedPart 1 ''etag''), ERead 5242880 [] (Some EOF),
     EComplete ''b'' ''k'' ''id'' [\<lparr>ETag = ''etag'', PartNumber = 1\<rparr>] (Some ''denied'')],
    Fatal (CompleteFailed ''denied''))"
  by (simp add: run_defs)

section \<open>Invalid input (C3, C9)\<close>

text \<open>part_000 stops on an empty bucket before anything else happens.\<close>

lemma part_000_invalid_input_exits:
  "main_part_000 (env_of \<lparr>data = [1, 2, 3], fault = None\<rparr> ok_client)
     ((flags_of 1024)\<lparr>bucket := []\<rparr>) =
   ([EUsage, EPrint MustProvide], Exit 1)"
  by (simp add: run_defs)

text \<open>
  C3. The claim: with an empty bucket, key or file path, or a chunk size below the
  minimum, the run ends with a configuration error and \<^verbatim>\<open>CreateMultipartUpload\<close> is never
  called. In main.go both checks only print (lines 29 to 36): with an empty bucket and a
  chunk size of 1024 the session is created, the file is uploaded and the run succeeds.
\<close>

theorem main_invalid_input_continues:
  "main (env_of \<lparr>data = [1, 2, 3], fault = None\<rparr> ok_client) ((flags_of 1024)\<lparr>bucket := []\<rparr>) =
   ([EUsage, EPrint MustProvide, EPrint (ChunkSizeTooSmall 5242880), ELoadConfig None,
     EOpen ''f'' None, ECreate [] ''k'' (Inr (Some ''id'')), EPrint (UploadIdIs ''id''),
     ERead 1024 [1, 2, 3] None,
     EUploadPart [] ''k'' 1 ''id'' [1, 2, 3] (Inr (Some ''etag'')),
     EPrint (UploadedPart 1 ''etag''), ERead 1024 [] (Some EOF),
     EComplete [] ''k'' ''id'' [\<lparr>ETag = ''etag'', PartNumber = 1\<rparr>] None,
     EPrint UploadCompleted, EClose],
    Returned)"
  by (simp add: run_defs)

text \<open>
  C9. With a chunk size of 0 and a non-empty file, main.go prints the warning and goes on:
  it creates the session, reads zero bytes into the empty buffer, leaves the loop without
  an upload, and calls \<^verbatim>\<open>CompleteMultipartUpload\<close> with an empty manifest; when the service
  accepts it, the run ends as a success.
\<close>

theorem main_zero_chunk_size_completes_empty:
  assumes "chunkSize a = 0"
    and "load_config ev = None"
    and "open_file ev (filePath a) = Inr f"
    and "data f \<noteq> []"
    and "create_resp (s3 ev) (bucket a) (key a) = Inr (Some uid)"
    and "complete_resp (s3 ev) [] = None"
  shows "EPrint (ChunkSizeTooSmall minimumChunkSize) \<in> set (validate a) \<and>
         main ev a =
           (validate a @
            [ELoadConfig None, EOpen (filePath a) None,
             ECreate (bucket a) (key a) (Inr (Some uid)), EPrint (UploadIdIs uid),
             ERead 0 [] None, EComplete (bucket a) (key a) uid [] None,
             EPrint UploadCompleted, EClose],
            Returned)"
  using assms
  by (simp add: main_def main_opened_def main_upload_def complete_upload_def validate_def
      main_loop.simps Read_def sort_parts_def after_def with_deferred_close_def
      minimumChunkSize_def)

theorem main_zero_chunk_size_completes_empty_witness:
  "main (env_of \<lparr>data = [1, 2, 3], fault = None\<rparr> ok_client) (flags_of 0) =
   ([EPrint (ChunkSizeTooSmall 5242880), ELoadConfig None, EOpen ''f'' None,
     ECreate ''b'' ''k'' (Inr (Some ''id'')), EPrint (UploadIdIs ''id''),
     ERead 0 [] None, EComplete ''b'' ''k'' ''id'' [] None, EPrint UploadCompleted, EClose],
    Returned)"
  using main_zero_chunk_size_completes_empty
    [of "flags_of 0" "env_of \<lparr>data = [1, 2, 3], fault = None\<rparr> ok_client"
        "\<lparr>data = [1, 2, 3], fault = None\<rparr>" "''id''"]
  by (simp add: env_of_def ok_client_def flags_of_def validate_def minimumChunkSize_def)

section \<open>A failed completion (C8)\<close>

text \<open>
  C8. When the run reaches the completion call and the service answers with an error, the
  run ends with \<^verbatim>\<open>log.Fatalf\<close> reporting the completion (not a part upload), no
  \<^verbatim>\<open>AbortMultipartUpload\<close> call occurs anywhere in the run, the failed completion is the
  only completion call and the last event of the run, and every upload call of the run
  had succeeded.
\<close>

theorem completion_failure_leaves_session_open:
  assumes "EComplete b k u m (Some e) \<in> set (fst (main ev a))"
  shows "snd (main ev a) = Fatal (CompleteFailed e) \<and>
         filter is_abort (fst (main ev a)) = [] \<and>
         filter is_complete (fst (main ev a)) = [EComplete b k u m (Some e)] \<and>
         last (fst (main ev a)) = EComplete b k u m (Some e) \<and>
         (\<forall>x \<in> set (fst (main ev a)). is_upload x \<longrightarrow> goes_on x)"
proof (cases ev a rule: main_run_cases)
  case early
  then show ?thesis
    using assms by (auto simp: list_all_iff dest: setup_event_observed)
next
  case (failed f uid e')
  then show ?thesis
    using assms by (metis fst_conv no_complete_before_completion)
next
  case (panicked f uid)
  have "EComplete b k u m (Some e) \<notin> set ((prologue a uid @ fst (the_loop ev a f uid)) @ [EClose])"
    using no_complete_before_completion [of b k u m "Some e" a uid] by simp
  then show ?thesis
    using assms panicked(4) by simp
next
  case (completed f uid ps)
  have "EComplete b k u m (Some e) \<notin> set ((prologue a uid @ fst (the_loop ev a f uid)) @
      [EComplete (bucket a) (key a) uid (sort_parts ps) None, EPrint UploadCompleted, EClose])"
    using no_complete_before_completion [of b k u m "Some e" a uid] by simp
  then show ?thesis
    using assms completed(4) by simp
next
  case (rejected f uid ps e')
  let ?loop = "fst (the_loop ev a f uid)"
  let ?c = "EComplete (bucket a) (key a) uid (sort_parts ps) (Some e')"
  have tr: "fst (main ev a) = (prologue a uid @ ?loop) @ [?c]"
    and out: "snd (main ev a) = Fatal (CompleteFailed e')"
    using rejected(4) by simp_all
  have "EComplete b k u m (Some e) \<notin> set (prologue a uid @ ?loop)"
    by (rule no_complete_before_completion)
  with assms tr have same: "EComplete b k u m (Some e) = ?c"
    by auto
  have on: "list_all goes_on ?loop"
    using rejected(3) by (rule main_loop_done_goes_on)
  have "filter is_abort (fst (main ev a)) = []"
    using tr goes_on_events_observed(1) [OF on] prologue_observed(5) [of a uid] by simp
  moreover have "filter is_complete (fst (main ev a)) = [?c]"
    using tr loop_events_observed(2) [OF goes_on_events_observed(2) [OF on]]
      prologue_observed(4) [of a uid] by simp
  moreover have "last (fst (main ev a)) = ?c"
    using tr by simp
  moreover have "\<forall>x \<in> set (fst (main ev a)). is_upload x \<longrightarrow> goes_on x"
    using tr on setup_prologue [of a uid]
    by (auto simp: list_all_iff dest: setup_event_observed)
  ultimately show ?thesis
    using out same by simp
qed

theorem completion_failure_leaves_session_open_witness:
  "EComplete ''b'' ''k'' ''id'' [\<lparr>ETag = ''etag'', PartNumber = 1\<rparr>] (Some ''denied'')
     \<in> set (fst (main (env_of three_bytes rejecting_client) (flags_of 5242880))) \<and>
   snd (main (env_of three_bytes rejecting_client) (flags_of 5242880)) =
     Fatal (CompleteFailed ''denied'') \<and>
   filter is_abort (fst (main (env_of three_bytes rejecting_client) (flags_of 5242880))) = []"
proof -
  have h: "EComplete ''b'' ''k'' ''id'' [\<lparr>ETag = ''etag'', PartNumber = 1\<rparr>] (Some ''denied'')
     \<in> set (fst (main (env_of three_bytes rejecting_client) (flags_of 5242880)))"
    by (simp add: run_defs)
  show ?thesis
    using completion_failure_leaves_session_open [OF h] h by simp
qed

section \<open>A failed part upload (C4)\<close>



section \<open>The number of parts (C6)\<close>



section \<open>The completion manifest (C5)\<close>

text \<open>
  C5, as stated: in every successful run the part numbers of the manifest are exactly
  \<open>1, \<dots>, N\<close> in ascending order. The part number is an \<^verbatim>\<open>int32\<close> that the loop increments,
  so it wraps around after \<open>2 ^ 31 - 1\<close> parts: with a file of \<open>2 ^ 31\<close> chunks of 5 MiB, the
  minimum chunk size and a service that accepts every request, the run succeeds and its
  manifest contains the part number \<open>- 2 ^ 31\<close>.
\<close>

theorem manifest_part_numbers_counterexample:
  "snd (main (env_of file_10PiB ok_client) (flags_of 5242880)) = Returned \<and>
   - 2147483648 \<in> set (signed_numbers
       (concat (manifests (fst (main (env_of file_10PiB ok_client) (flags_of 5242880)))))) \<and>
   signed_numbers
       (concat (manifests (fst (main (env_of file_10PiB ok_client) (flags_of 5242880))))) \<noteq>
     map int [1..<Suc (length
       (concat (manifests (fst (main (env_of file_10PiB ok_client) (flags_of 5242880))))))]"
proof -
  let ?ev = "env_of file_10PiB ok_client"
  let ?a = "flags_of 5242880"
  let ?tr = "fst (main ?ev ?a)"
  let ?n = "length (upload_numbers ?tr)"
  have env: "0 < chunkSize ?a" "load_config ?ev = None" "open_file ?ev (filePath ?a) = Inr file_10PiB"
    "create_resp (s3 ?ev) (bucket ?a) (key ?a) = Inr (Some ''id'')"
    "\<forall>i. \<exists>t. upload_resp (s3 ?ev) i = Inr (Some t)" "\<forall>m. complete_resp (s3 ?ev) m = None"
    "nat (chunkSize ?a) = 5242880"
    by (simp_all add: env_of_def ok_client_def flags_of_def)
  have ret: "snd (main ?ev ?a) = Returned"
    using env(1-3) file_10PiB_facts(1) env(4-6) by (rule main_all_succeed)
  have "upload_numbers ?tr = upload_numbers (fst (the_loop ?ev ?a file_10PiB ''id''))"
    using env(2,3,4) by (rule main_observed_in_loop(1)) (simp add: flags_of_def)
  moreover have "length (data file_10PiB)
        \<le> length (upload_numbers (fst (the_loop ?ev ?a file_10PiB ''id''))) * nat (chunkSize ?a) \<and>
      length (upload_numbers (fst (the_loop ?ev ?a file_10PiB ''id''))) * nat (chunkSize ?a)
        < length (data file_10PiB) + nat (chunkSize ?a)"
    using main_loop_all_succeed [OF _ env(5) file_10PiB_facts(1), of "nat (chunkSize ?a)"] env(7)
    by simp
  ultimately have n: "?n = 2 ^ 31"
    unfolding env(7) file_10PiB_facts(2) by simp
  from main_manifest [OF ret] obtain ps where
    m: "manifests ?tr = [sort_parts ps]" and ps: "map PartNumber ps = upload_numbers ?tr"
    by blast
  have "upload_numbers ?tr = map (\<lambda>i. of_nat (Suc i)) [0..<?n]"
    by (rule main_upload_numbers)
  then have "last (upload_numbers ?tr) = last (map (\<lambda>i. of_nat (Suc i) :: int32) [0..<?n])"
    by (rule arg_cong)
  also have "\<dots> = of_nat ?n"
    by (rule last_numbered) (simp add: n)
  finally have "last (map PartNumber ps) = of_nat (2 ^ 31)"
    unfolding ps n .
  moreover have "map PartNumber ps \<noteq> []"
    unfolding ps using n by (metis length_0_conv power_not_zero zero_neq_numeral)
  ultimately have "of_nat (2 ^ 31) \<in> set (map PartNumber ps)"
    by (metis last_in_set)
  then obtain p where p: "p \<in> set ps" "PartNumber p = 2147483648"
    by auto
  have "sint (PartNumber p) = - 2147483648"
    unfolding p(2) by (rule sint_wrapped)
  with p(1) have "- 2147483648 \<in> (\<lambda>p. sint (PartNumber p)) ` set ps"
    by (metis image_eqI)
  then have neg: "- 2147483648 \<in> set (map (\<lambda>p. sint (PartNumber p)) (concat (manifests ?tr)))"
    unfolding m by (simp add: sort_parts_def)
  have "- 2147483648 \<notin> set (map int [1..<Suc k])" for k
    by auto
  with neg have "map (\<lambda>p. sint (PartNumber p)) (concat (manifests ?tr)) \<noteq>
      map int [1..<Suc (length (concat (manifests ?tr)))]"
    by metis
  with ret neg show ?thesis unfolding signed_numbers_def by blast
qed

text \<open>
  C5, amended: a successful run of main.go makes exactly one completion call; its manifest
  has one entry for each upload call of the run, all of which succeeded; and when there
  are fewer than \<open>2 ^ 31\<close> parts, the part numbers of the manifest, in order, are
  \<open>1, \<dots>, N\<close>.
\<close>

theorem manifest_part_numbers:
  assumes "snd (main ev a) = Returned"
  shows "\<exists>m. manifests (fst (main ev a)) = [m] \<and>
           length m = length (upload_numbers (fst (main ev a))) \<and>
           (\<forall>x \<in> set (fst (main ev a)). is_upload x \<longrightarrow> goes_on x) \<and>
           (length m < 2 ^ 31 \<longrightarrow> signed_numbers m = map int [1..<Suc (length m)])"
proof -
  let ?n = "length (upload_numbers (fst (main ev a)))"
  from main_manifest [OF assms] obtain ps where
    m: "manifests (fst (main ev a)) = [sort_parts ps]"
    and ps: "map PartNumber ps = upload_numbers (fst (main ev a))"
    and ok: "\<forall>x \<in> set (fst (main ev a)). is_upload x \<longrightarrow> goes_on x"
    by blast
  have len: "length (sort_parts ps) = ?n"
    using arg_cong [OF ps, of length] by (simp add: sort_parts_def)
  have nums: "map PartNumber ps = map (\<lambda>i. of_nat (Suc i)) [0..<?n]"
    using ps main_upload_numbers [of ev a] by simp
  have "map (\<lambda>p. sint (PartNumber p)) (sort_parts ps) = map int [1..<Suc ?n]"
    if small: "?n < 2 ^ 31"
  proof -
    have "map (\<lambda>p. sint (PartNumber p)) ps = map sint (map PartNumber ps)"
      by simp
    also have "\<dots> = map (\<lambda>i. int (Suc i)) [0..<?n]"
      unfolding nums using small by (rule numbers_signed)
    finally have signed: "map (\<lambda>p. sint (PartNumber p)) ps = map (\<lambda>i. int (Suc i)) [0..<?n]" .
    then have "sorted (map (\<lambda>p. sint (PartNumber p)) ps)"
      by (simp only: sorted_numbers)
    then have "sort_parts ps = ps"
      unfolding sort_parts_def by (rule sort_key_id_if_sorted)
    then show ?thesis
      using signed numbers_from_one [of ?n] by simp
  qed
  then show ?thesis
    unfolding signed_numbers_def using m len ok by simp
qed


theorem manifest_part_numbers_witness:
  "manifests (fst (main (env_of three_bytes ok_client) (flags_of 2))) =
     [[\<lparr>ETag = ''etag'', PartNumber = 1\<rparr>, \<lparr>ETag = ''etag'', PartNumber = 2\<rparr>]] \<and>
   signed_numbers
     [\<lparr>ETag = ''etag'', PartNumber = 1\<rparr>, \<lparr>ETag = ''etag'', PartNumber = 2\<rparr>] = [1, 2]"
proof -
  have r: "snd (main (env_of three_bytes ok_client) (flags_of 2)) = Returned"
    by (simp add: run_defs)
  have m: "manifests (fst (main (env_of three_bytes ok_client) (flags_of 2))) =
     [[\<lparr>ETag = ''etag'', PartNumber = 1\<rparr>, \<lparr>ETag = ''etag'', PartNumber = 2\<rparr>]]"
    by (simp add: run_defs)
  show ?thesis
    using manifest_part_numbers [OF r] unfolding m by (simp add: upt_rec)
qed

section \<open>The round trip (C7)\<close>

text \<open>
  For a chunk size of at least 1 the payloads of the upload calls of a successful run,
  concatenated in the order of the calls, are the content of the file
  (\<open>main_round_trip\<close>); by \<open>main_upload_numbers\<close> the calls carry the part numbers
  \<open>1, 2, \<dots>\<close> in that order.

  C7. The claim is about every successful run. main.go accepts a chunk size of 0 after
  its warning (see C3 and C9): the run below succeeds on a file of three bytes and uploads
  nothing, so the payloads do not give back the file.
\<close>

theorem main_zero_chunk_size_uploads_nothing:
  "snd (main (env_of three_bytes ok_client) (flags_of 0)) = Returned \<and>
   concat (map payload (fst (main (env_of three_bytes ok_client) (flags_of 0)))) = [] \<and>
   data three_bytes = [1, 2, 3]"
  by (simp add: run_defs)

section \<open>The refactored loop (C10)\<close>

text \<open>
  One step of the loop of \<^verbatim>\<open>uploadParts\<close> in each of its five cases, and the two loops
  side by side: they end in the same way, and the events of the loop of \<^verbatim>\<open>uploadParts\<close>
  are those of the loop of main.go without the abort call.
\<close>

lemma uploadParts_loop_fault:
  "Read f len = ((bs, err), f') \<Longrightarrow> read_fault err = Some e \<Longrightarrow>
   uploadParts_loop cl b k u len f pn calls ps = ([ERead len bs err], Failed (ReadFailed e))"
  by (subst uploadParts_loop.simps) simp

lemma uploadParts_loop_eof:
  "Read f len = (([], err), f') \<Longrightarrow> read_fault err = None \<Longrightarrow>
   uploadParts_loop cl b k u len f pn calls ps = ([ERead len [] err], Done ps)"
  by (subst uploadParts_loop.simps) simp

lemma uploadParts_loop_upfail:
  "Read f len = ((bs, err), f') \<Longrightarrow> read_fault err = None \<Longrightarrow> bs \<noteq> [] \<Longrightarrow>
   upload_resp cl calls = Inl e \<Longrightarrow>
   uploadParts_loop cl b k u len f pn calls ps =
     ([ERead len bs err, EUploadPart b k pn u bs (Inl e)], Failed (UploadPartFailed pn e))"
  by (subst uploadParts_loop.simps) simp

lemma uploadParts_loop_noetag:
  "Read f len = ((bs, err), f') \<Longrightarrow> read_fault err = None \<Longrightarrow> bs \<noteq> [] \<Longrightarrow>
   upload_resp cl calls = Inr None \<Longrightarrow>
   uploadParts_loop cl b k u len f pn calls ps =
     ([ERead len bs err, EUploadPart b k pn u bs (Inr None)], Panicked)"
  by (subst uploadParts_loop.simps) simp

lemma uploadParts_loop_next:
  "Read f len = ((bs, err), f') \<Longrightarrow> read_fault err = None \<Longrightarrow> bs \<noteq> [] \<Longrightarrow>
   upload_resp cl calls = Inr (Some t) \<Longrightarrow>
   uploadParts_loop cl b k u len f pn calls ps =
     after [ERead len bs err, EUploadPart b k pn u bs (Inr (Some t)), EPrint (UploadedPart pn t)]
       (uploadParts_loop cl b k u len f' (pn + 1) (Suc calls)
          (ps @ [\<lparr>ETag = t, PartNumber = pn\<rparr>]))"
  by (subst uploadParts_loop.simps) simp

lemmas uploadParts_loop_steps =
  uploadParts_loop_fault uploadParts_loop_eof uploadParts_loop_upfail uploadParts_loop_noetag
  uploadParts_loop_next

lemma loops_agree:
  "snd (uploadParts_loop cl b k u len f pn calls ps) = snd (main_loop cl b k u len f pn calls ps) \<and>
   fst (uploadParts_loop cl b k u len f pn calls ps) =
     filter (\<lambda>x. \<not> is_abort x) (fst (main_loop cl b k u len f pn calls ps))"
  by (induction f pn calls ps rule: loop_induct [where len = len and cl = cl])
     (simp_all add: main_loop_steps uploadParts_loop_steps)

lemma uploads_without_aborts:
  "filter is_upload (filter (\<lambda>x. \<not> is_abort x) evs) = filter is_upload evs"
  by (induction evs) (auto elim: is_abort.elims)

text \<open>
  C10. On the same open file, with the same chunk size and the same client,
  \<^verbatim>\<open>uploadParts\<close> of part_000 issues the same \<^verbatim>\<open>UploadPart\<close> calls, with the same answers
  and in the same order, as the loop of main.go (lines 64 to 108), and it returns the list
  that main.go has after its sort (line 110): the sorted completed parts when the loop
  ends normally, the same failure when a read or an upload fails, a panic when the loop
  panics.
\<close>

theorem uploadParts_agrees_with_inline_loop:
  assumes "open_file ev (cfg_filePath cfg) = Inr f" and "0 \<le> cfg_chunkSize cfg"
  shows "filter is_upload (fst (uploadParts ev cfg cl uploadId)) =
           filter is_upload
             (fst (main_loop cl (cfg_bucket cfg) (cfg_key cfg) uploadId
                     (nat (cfg_chunkSize cfg)) f 1 0 [])) \<and>
         snd (uploadParts ev cfg cl uploadId) =
           (case snd (main_loop cl (cfg_bucket cfg) (cfg_key cfg) uploadId
                        (nat (cfg_chunkSize cfg)) f 1 0 []) of
              Done completedParts \<Rightarrow> Done (sort_parts completedParts)
            | Failed e \<Rightarrow> Failed e
            | Panicked \<Rightarrow> Panicked)"
proof -
  let ?m = "main_loop cl (cfg_bucket cfg) (cfg_key cfg) uploadId (nat (cfg_chunkSize cfg)) f 1 0 []"
  let ?u = "uploadParts_loop cl (cfg_bucket cfg) (cfg_key cfg) uploadId
              (nat (cfg_chunkSize cfg)) f 1 0 []"
  have agree: "snd ?u = snd ?m" "fst ?u = filter (\<lambda>x. \<not> is_abort x) (fst ?m)"
    using loops_agree [of cl "cfg_bucket cfg" "cfg_key cfg" uploadId "nat (cfg_chunkSize cfg)" f 1 0 "[]"]
    by simp_all
  obtain evs r where u: "?u = (evs, r)"
    by (metis prod.exhaust)
  have up: "fst (uploadParts ev cfg cl uploadId) = EOpen (cfg_filePath cfg) None # evs @ [EClose]"
    "snd (uploadParts ev cfg cl uploadId) =
       (case r of Done completedParts \<Rightarrow> Done (sort_parts completedParts)
        | Failed e \<Rightarrow> Failed e | Panicked \<Rightarrow> Panicked)"
    using assms u by (cases r; simp add: uploadParts_def)+
  have "filter is_upload (fst (uploadParts ev cfg cl uploadId)) = filter is_upload evs"
    using up(1) by simp
  also have "\<dots> = filter is_upload (fst ?m)"
    using agree(2) u uploads_without_aborts [of "fst ?m"] by simp
  finally show ?thesis
    using up(2) agree(1) u by simp
qed

theorem uploadParts_agrees_with_inline_loop_witness:
  "filter is_upload (fst (uploadParts (env_of three_bytes ok_client) small_cfg ok_client ''id'')) =
     [EUploadPart ''b'' ''k'' 1 ''id'' [1, 2] (Inr (Some ''etag'')),
      EUploadPart ''b'' ''k'' 2 ''id'' [3] (Inr (Some ''etag''))] \<and>
   snd (uploadParts (env_of three_bytes ok_client) small_cfg ok_client ''id'') =
     Done [\<lparr>ETag = ''etag'', PartNumber = 1\<rparr>, \<lparr>ETag = ''etag'', PartNumber = 2\<rparr>]"
proof -
  have h1: "open_file (env_of three_bytes ok_client) (cfg_filePath small_cfg) = Inr three_bytes"
    by (simp add: env_of_def)
  have h2: "0 \<le> cfg_chunkSize small_cfg"
    by (simp add: small_cfg_def)
  have loop: "main_loop ok_client (cfg_bucket small_cfg) (cfg_key small_cfg) ''id''
      (nat (cfg_chunkSize small_cfg)) three_bytes 1 0 [] =
    ([ERead 2 [1, 2] None, EUploadPart ''b'' ''k'' 1 ''id'' [1, 2] (Inr (Some ''etag'')),
      EPrint (UploadedPart 1 ''etag''), ERead 2 [3] None,
      EUploadPart ''b'' ''k'' 2 ''id'' [3] (Inr (Some ''etag'')),
      EPrint (UploadedPart 2 ''etag''), ERead 2 [] (Some EOF)],
     Done [\<lparr>ETag = ''etag'', PartNumber = 1\<rparr>, \<lparr>ETag = ''etag'', PartNumber = 2\<rparr>])"
    by (simp add: run_defs)
  show ?thesis
    using uploadParts_agrees_with_inline_loop [OF h1 h2, of ok_client "''id''"]
    unfolding loop by (simp add: sort_parts_def)
qed

end
